theory Spec2Isabelle
  imports Complex_Main "HOL-Library.Sublist"
begin

section \<open>Exceptions and paths\<close>

text \<open>
  The exceptions that the modelled steps of \<^verbatim>\<open>convert_dicom.py\<close> can raise.
  Each carries the text that \<^verbatim>\<open>str(e)\<close> yields. \<open>LibError\<close> stands for whatever the
  decoding and encoding libraries raise.
\<close>

datatype exn =
    IndexError string
  | ValueError string
  | FileExistsError string
  | FileNotFoundError string
  | NotADirectoryError string
  | IsADirectoryError string
  | OSError string
  | LibError string

fun exn_str :: "exn \<Rightarrow> string" where
  "exn_str (IndexError m) = m"
| "exn_str (ValueError m) = m"
| "exn_str (FileExistsError m) = m"
| "exn_str (FileNotFoundError m) = m"
| "exn_str (NotADirectoryError m) = m"
| "exn_str (IsADirectoryError m) = m"
| "exn_str (OSError m) = m"
| "exn_str (LibError m) = m"

text \<open>
  A \<^verbatim>\<open>pathlib\<close> path on a POSIX system: whether it starts at the root, and its
  components. \<open>parts\<close> never holds the root itself.
\<close>

record path =
  anchored :: bool
  parts :: "string list"

definition child :: "path \<Rightarrow> string \<Rightarrow> path" where
  \<comment> \<open>the entry called \<open>s\<close> of the directory \<open>p\<close>\<close>
  "child p s = p\<lparr>parts := parts p @ [s]\<rparr>"

definition joinpath :: "path \<Rightarrow> string \<Rightarrow> path" where
  \<comment> \<open>\<^verbatim>\<open>p / s\<close> for a name \<open>s\<close> without a separator; joining the empty name gives \<open>p\<close>.\<close>
  "joinpath p s = (if s = [] then p else child p s)"

definition parent :: "path \<Rightarrow> path" where
  \<comment> \<open>\<^verbatim>\<open>p.parent\<close>; the root and the empty relative path are their own parent.\<close>
  "parent p = p\<lparr>parts := butlast (parts p)\<rparr>"

definition name :: "path \<Rightarrow> string" where
  \<comment> \<open>\<^verbatim>\<open>p.name\<close>: the last component, the empty string for the root and for \<^verbatim>\<open>.\<close>\<close>
  "name p = (if parts p = [] then [] else last (parts p))"

definition parents :: "path \<Rightarrow> path list" where
  \<comment> \<open>\<^verbatim>\<open>p.parents\<close>: the ancestors, nearest first, down to the root (or \<^verbatim>\<open>.\<close>).\<close>
  "parents p = map (\<lambda>k. p\<lparr>parts := take k (parts p)\<rparr>) (rev [0..<length (parts p)])"

fun join_sep :: "string list \<Rightarrow> string" where
  "join_sep [] = []"
| "join_sep [c] = c"
| "join_sep (c # cs) = c @ ''/'' @ join_sep cs"

definition path_str :: "path \<Rightarrow> string" where
  \<comment> \<open>\<^verbatim>\<open>str(p)\<close>\<close>
  "path_str p =
     (if anchored p then ''/'' @ join_sep (parts p)
      else if parts p = [] then ''.'' else join_sep (parts p))"

section \<open>Formatting numbers\<close>

definition digit :: "nat \<Rightarrow> char" where
  "digit n = ''0123456789'' ! n"

fun str_nat :: "nat \<Rightarrow> string" where
  "str_nat n = (if n < 10 then [digit n] else str_nat (n div 10) @ [digit (n mod 10)])"

declare str_nat.simps [simp del]

definition str_int :: "int \<Rightarrow> string" where
  "str_int i = (if i < 0 then ''-'' @ str_nat (nat (- i)) else str_nat (nat i))"

definition format_02d :: "nat \<Rightarrow> string" where
  \<comment> \<open>\<^verbatim>\<open>f"{n:02d}"\<close>: at least two digits, zeros in front\<close>
  "format_02d n = (if n < 10 then ''0'' @ str_nat n else str_nat n)"

section \<open>The Patient Path Resolver\<close>

definition get_patient_folder :: "path \<Rightarrow> int \<Rightarrow> exn + string" where
  \<comment> \<open>\<^verbatim>\<open>dicom_path.parents[levels_up].name\<close>. A negative index counts from the end,
      an index outside the sequence raises \<^verbatim>\<open>IndexError(levels_up)\<close>.\<close>
  "get_patient_folder dicom_path levels_up =
     (let ps = parents dicom_path;
          n = int (length ps);
          j = (if levels_up < 0 then n + levels_up else levels_up)
      in if 0 \<le> j \<and> j < n then Inr (name (ps ! nat j))
         else Inl (IndexError (str_int levels_up)))"

section \<open>Rescaling of the pixel array\<close>

text \<open>
  The integer element types of the arrays that the decoder hands out. Arithmetic between
  an array and a scalar of its own type stays in that type and wraps around.
\<close>

datatype dtype = UInt8 | Int8 | UInt16 | Int16 | UInt32 | Int32

fun bits :: "dtype \<Rightarrow> nat" where
  "bits UInt8 = 8" | "bits Int8 = 8"
| "bits UInt16 = 16" | "bits Int16 = 16"
| "bits UInt32 = 32" | "bits Int32 = 32"

fun is_signed :: "dtype \<Rightarrow> bool" where
  "is_signed UInt8 = False" | "is_signed Int8 = True"
| "is_signed UInt16 = False" | "is_signed Int16 = True"
| "is_signed UInt32 = False" | "is_signed Int32 = True"

definition wrap :: "dtype \<Rightarrow> int \<Rightarrow> int" where
  "wrap dt v =
     (if is_signed dt then (v + 2 ^ (bits dt - 1)) mod 2 ^ bits dt - 2 ^ (bits dt - 1)
      else v mod 2 ^ bits dt)"

definition in_range :: "dtype \<Rightarrow> int \<Rightarrow> bool" where
  "in_range dt v =
     (if is_signed dt then - (2 ^ (bits dt - 1)) \<le> v \<and> v < 2 ^ (bits dt - 1)
      else 0 \<le> v \<and> v < 2 ^ bits dt)"

text \<open>The decoded pixel array, flattened: every element lies in the range of its type.\<close>

record ndarray =
  dtype :: dtype
  elems :: "int list"

text \<open>
  A binary64 value: a finite number, or one of the special values that a division by
  zero produces. The rounding of the format is the parameter \<open>fl\<close> of the operations
  below (round to nearest); the identity is the exact arithmetic.
\<close>

datatype f64 = Fin rat | NaN | PosInf | NegInf

definition true_divide :: "(rat \<Rightarrow> rat) \<Rightarrow> int \<Rightarrow> int \<Rightarrow> f64" where
  \<comment> \<open>integer by integer, giving binary64; a zero divisor gives \<open>nan\<close> or an infinity and
      a warning, not an exception\<close>
  "true_divide fl a b =
     (if b = 0 then (if a = 0 then NaN else if 0 < a then PosInf else NegInf)
      else Fin (fl (of_int a / of_int b)))"

fun times255 :: "(rat \<Rightarrow> rat) \<Rightarrow> f64 \<Rightarrow> f64" where
  "times255 fl (Fin r) = Fin (fl (r * 255))"
| "times255 fl NaN = NaN"
| "times255 fl PosInf = PosInf"
| "times255 fl NegInf = NegInf"

definition trunc :: "rat \<Rightarrow> int" where
  "trunc r = (if 0 \<le> r then \<lfloor>r\<rfloor> else \<lceil>r\<rceil>)"

fun astype_uint8 :: "(f64 \<Rightarrow> nat) \<Rightarrow> f64 \<Rightarrow> nat" where
  \<comment> \<open>Truncation towards zero. Outside 0..255 the library leaves the result open. For a
      finite value the model takes the low byte, which is what the conversion
      instructions of x86-64 and AArch64 give for non-negative values below \<open>2^31\<close>.
      For \<open>nan\<close> and the infinities nothing is fixed: the byte is what the platform
      gives, the parameter \<open>plat\<close>; the program does not decide it.\<close>
  "astype_uint8 plat (Fin r) = nat (trunc r mod 256)"
| "astype_uint8 plat NaN = plat NaN mod 256"
| "astype_uint8 plat PosInf = plat PosInf mod 256"
| "astype_uint8 plat NegInf = plat NegInf mod 256"

definition rescale :: "(rat \<Rightarrow> rat) \<Rightarrow> (f64 \<Rightarrow> nat) \<Rightarrow> ndarray \<Rightarrow> exn + nat list" where
  \<comment> \<open>\<^verbatim>\<open>((a - a.min()) / (a.max() - a.min())) * 255\<close>, then \<^verbatim>\<open>.astype(np.uint8)\<close>\<close>
  "rescale fl plat a =
     (if elems a = [] then
        Inl (ValueError ''zero-size array to reduction operation minimum which has no identity'')
      else
        let mn = Min (set (elems a));
            mx = Max (set (elems a));
            num = map (\<lambda>p. wrap (dtype a) (p - mn)) (elems a);
            den = wrap (dtype a) (mx - mn)
        in Inr (map (\<lambda>n. astype_uint8 plat (times255 fl (true_divide fl n den))) num))"

section \<open>The file system\<close>

text \<open>
  What the program sees of the file system: for every path what is there (nothing, a
  regular file with its content, a directory, or something that is neither), and for
  every directory the names of its entries in enumeration order. A chain of directories
  may be endless, as with a symbolic link to an ancestor.
\<close>

type_synonym image = "nat list"

datatype node = Absent | File image | Dir | Other

record fs =
  node :: "path \<Rightarrow> node"
  listing :: "path \<Rightarrow> string list"

definition is_file :: "fs \<Rightarrow> path \<Rightarrow> bool" where
  "is_file w p = (case node w p of File _ \<Rightarrow> True | _ \<Rightarrow> False)"

definition is_dir :: "fs \<Rightarrow> path \<Rightarrow> bool" where
  "is_dir w p = (node w p = Dir)"

definition iterdir :: "fs \<Rightarrow> path \<Rightarrow> exn + path list" where
  "iterdir w p =
     (case node w p of
        Dir \<Rightarrow> Inr (map (child p) (listing w p))
      | Absent \<Rightarrow> Inl (FileNotFoundError (path_str p))
      | _ \<Rightarrow> Inl (NotADirectoryError (path_str p)))"

section \<open>The File Discoverer\<close>

text \<open>
  The results of the recursive calls of one directory, joined in order. The first call
  that raises ends the loop, and so does one that does not return.
\<close>

fun extend_all :: "(exn + path list) option list \<Rightarrow> (exn + path list) option" where
  "extend_all [] = Some (Inr [])"
| "extend_all (None # rs) = None"
| "extend_all (Some (Inl e) # rs) = Some (Inl e)"
| "extend_all (Some (Inr fs) # rs) =
     (case extend_all rs of
        None \<Rightarrow> None
      | Some (Inl e) \<Rightarrow> Some (Inl e)
      | Some (Inr gs) \<Rightarrow> Some (Inr (fs @ gs)))"

text \<open>
  \<^verbatim>\<open>find_dicom_files(input_path, depth)\<close>. The first argument bounds the nesting of the
  recursive calls; \<open>None\<close> says that the bound was reached, so a call that never returns
  is \<open>None\<close> for every bound.
\<close>

fun find_dicom_files :: "nat \<Rightarrow> fs \<Rightarrow> path \<Rightarrow> int \<Rightarrow> (exn + path list) option" where
  "find_dicom_files 0 w input_path depth = None"
| "find_dicom_files (Suc k) w input_path depth =
     (case iterdir w input_path of
        Inl e \<Rightarrow> Some (Inl e)
      | Inr entries \<Rightarrow>
          if depth = 0 then Some (Inr (filter (is_file w) entries))
          else extend_all
                 (map (\<lambda>subdir. find_dicom_files k w subdir (depth - 1))
                    (filter (is_dir w) entries)))"

text \<open>
  The specification side: the names \<open>ns\<close> lead from the directory \<open>p\<close> through listed
  directories to a listed regular file. Such a file lies \<open>length ns - 1\<close> directory
  levels below \<open>p\<close>.
\<close>

fun leads_to_file :: "fs \<Rightarrow> path \<Rightarrow> string list \<Rightarrow> bool" where
  "leads_to_file w p [] = False"
| "leads_to_file w p [n] = (n \<in> set (listing w p) \<and> is_file w (child p n))"
| "leads_to_file w p (n # m # ns) =
     (n \<in> set (listing w p) \<and> is_dir w (child p n) \<and> leads_to_file w (child p n) (m # ns))"

definition descend :: "path \<Rightarrow> string list \<Rightarrow> path" where
  "descend p ns = p\<lparr>parts := parts p @ ns\<rparr>"

section \<open>Writing to the file system\<close>

definition os_mkdir :: "fs \<Rightarrow> path \<Rightarrow> exn + fs" where
  \<comment> \<open>one directory, whose parent must be there\<close>
  "os_mkdir w p =
     (if node w p \<noteq> Absent then Inl (FileExistsError (path_str p))
      else if node w (parent p) = Absent then Inl (FileNotFoundError (path_str p))
      else if node w (parent p) \<noteq> Dir then Inl (NotADirectoryError (path_str p))
      else Inr (w\<lparr>node := (node w)(p := Dir),
                    listing := (listing w)(parent p := listing w (parent p) @ [name p],
                                           p := [])\<rparr>))"

fun is_not_found :: "exn \<Rightarrow> bool" where
  "is_not_found (FileNotFoundError m) = True"
| "is_not_found e = False"

definition mkdir_exist_ok :: "fs \<Rightarrow> path \<Rightarrow> exn option \<times> fs" where
  \<comment> \<open>\<^verbatim>\<open>p.mkdir(parents=False, exist_ok=True)\<close>\<close>
  "mkdir_exist_ok w p =
     (case os_mkdir w p of
        Inr w' \<Rightarrow> (None, w')
      | Inl e \<Rightarrow> if is_not_found e then (Some e, w)
                 else if is_dir w p then (None, w) else (Some e, w))"

function mkdir :: "fs \<Rightarrow> path \<Rightarrow> exn option \<times> fs" where
  \<comment> \<open>\<^verbatim>\<open>p.mkdir(parents=True, exist_ok=True)\<close>; the state comes back also when it raises\<close>
  "mkdir w p =
     (case os_mkdir w p of
        Inr w' \<Rightarrow> (None, w')
      | Inl e \<Rightarrow>
          if is_not_found e then
            (if parent p = p then (Some e, w)
             else (case mkdir w (parent p) of
                     (Some e', w1) \<Rightarrow> (Some e', w1)
                   | (None, w1) \<Rightarrow> mkdir_exist_ok w1 p))
          else if is_dir w p then (None, w) else (Some e, w))"
  by pat_completeness auto
termination
proof (relation "measure (\<lambda>(w, p). length (parts p))")
  show "wf (measure (\<lambda>(w, p). length (parts p)))" by simp
next
  fix w :: fs and p :: path and e :: exn
  assume "parent p \<noteq> p"
  then have "parts p \<noteq> []" by (auto simp: parent_def)
  then show "((w, parent p), (w, p)) \<in> measure (\<lambda>(w, p). length (parts p))"
    by (simp add: parent_def)
qed

declare mkdir.simps [simp del]

definition glob_jpg :: "fs \<Rightarrow> path \<Rightarrow> path list" where
  \<comment> \<open>\<^verbatim>\<open>d.glob("*.jpg")\<close>: the entries of \<open>d\<close> whose name ends in \<^verbatim>\<open>.jpg\<close>\<close>
  "glob_jpg w d = map (child d) (filter (suffix ''.jpg'') (listing w d))"

definition save :: "fs \<Rightarrow> path \<Rightarrow> image \<Rightarrow> exn option \<times> fs" where
  \<comment> \<open>opens the file for writing, creating or replacing it, and writes the image\<close>
  "save w p img =
     (if node w (parent p) \<noteq> Dir then (Some (FileNotFoundError (path_str p)), w)
      else case node w p of
        Dir \<Rightarrow> (Some (IsADirectoryError (path_str p)), w)
      | Other \<Rightarrow> (Some (OSError (path_str p)), w)
      | File old \<Rightarrow> (None, w\<lparr>node := (node w)(p := File img)\<rparr>)
      | Absent \<Rightarrow>
          (None, w\<lparr>node := (node w)(p := File img),
                     listing := (listing w)(parent p := listing w (parent p) @ [name p])\<rparr>))"

section \<open>The Single-File Converter\<close>

text \<open>
  What the decoder returns for a file: whether the object has the attribute
  \<^verbatim>\<open>PixelData\<close>, and what reading \<^verbatim>\<open>pixel_array\<close> gives (it can raise).
\<close>

record dataset =
  has_pixel_data :: bool
  pixel_array :: "exn + ndarray"

text \<open>
  The libraries and the platform, taken as they are: the decoder \<^verbatim>\<open>pydicom.dcmread\<close>,
  the rounding of binary64, the byte that the conversion to 8 bits gives for a value
  that is not finite, and \<^verbatim>\<open>Image.fromarray\<close> together with the JPEG encoder.
\<close>

record env =
  dcmread :: "path \<Rightarrow> exn + dataset"
  fl :: "rat \<Rightarrow> rat"
  cast_nonfinite :: "f64 \<Rightarrow> nat"
  fromarray :: "nat list \<Rightarrow> exn + image"

definition skip_message :: "path \<Rightarrow> string" where
  "skip_message dicom_path = ''Skipping '' @ path_str dicom_path @ '' - No Pixel Data Found''"

definition check_mark :: string where
  \<comment> \<open>U+2714 in UTF-8\<close>
  "check_mark = [CHR 0xE2, CHR 0x9C, CHR 0x94]"

definition cross_mark :: string where
  \<comment> \<open>U+274C in UTF-8\<close>
  "cross_mark = [CHR 0xE2, CHR 0x9D, CHR 0x8C]"

definition saved_message :: "path \<Rightarrow> string" where
  "saved_message new_filename = check_mark @ '' Saved: '' @ path_str new_filename"

definition error_message :: "path \<Rightarrow> exn \<Rightarrow> string" where
  "error_message dicom_path e =
     cross_mark @ '' Error processing '' @ path_str dicom_path @ '': '' @ exn_str e"

definition try_block :: "env \<Rightarrow> path \<Rightarrow> path \<Rightarrow> fs \<Rightarrow> (exn + string) \<times> fs" where
  \<comment> \<open>the body of the \<^verbatim>\<open>try\<close> of \<^verbatim>\<open>convert_dicom_to_jpeg\<close>: the value returned or the
      exception raised, and the file system as it is left\<close>
  "try_block ev dicom_path output_base_dir w =
     (case dcmread ev dicom_path of
        Inl e \<Rightarrow> (Inl e, w)
      | Inr dataset \<Rightarrow>
          if \<not> has_pixel_data dataset then (Inr (skip_message dicom_path), w)
          else
            (case get_patient_folder dicom_path 2 of
               Inl e \<Rightarrow> (Inl e, w)
             | Inr patient_folder \<Rightarrow>
                 let patient_output_dir = joinpath output_base_dir patient_folder in
                 (case mkdir w patient_output_dir of
                    (Some e, w1) \<Rightarrow> (Inl e, w1)
                  | (None, w1) \<Rightarrow>
                      let existing_files = glob_jpg w1 patient_output_dir;
                          new_filename =
                            joinpath patient_output_dir
                              (format_02d (length existing_files) @ ''.jpg'')
                      in
                      (case pixel_array dataset of
                         Inl e \<Rightarrow> (Inl e, w1)
                       | Inr a \<Rightarrow>
                           (case rescale (fl ev) (cast_nonfinite ev) a of
                              Inl e \<Rightarrow> (Inl e, w1)
                            | Inr pixels \<Rightarrow>
                                (case fromarray ev pixels of
                                   Inl e \<Rightarrow> (Inl e, w1)
                                 | Inr img \<Rightarrow>
                                     (case save w1 new_filename img of
                                        (Some e, w2) \<Rightarrow> (Inl e, w2)
                                      | (None, w2) \<Rightarrow>
                                          (Inr (saved_message new_filename), w2))))))))"

definition convert_dicom_to_jpeg :: "env \<Rightarrow> path \<Rightarrow> path \<Rightarrow> fs \<Rightarrow> string \<times> fs" where
  "convert_dicom_to_jpeg ev dicom_path output_base_dir w =
     (case try_block ev dicom_path output_base_dir w of
        (Inr res, w') \<Rightarrow> (res, w')
      | (Inl e, w') \<Rightarrow> (error_message dicom_path e, w'))"

section \<open>The Batch Orchestrator\<close>

text \<open>
  The conversions of the batch, one after the other in the order of the list: what
  \<^verbatim>\<open>executor.map\<close> computes when the tasks do not overlap in time.
\<close>

fun executor_map :: "env \<Rightarrow> path \<Rightarrow> path list \<Rightarrow> fs \<Rightarrow> string list \<times> fs" where
  "executor_map ev output_path [] w = ([], w)"
| "executor_map ev output_path (d # ds) w =
     (let (res, w1) = convert_dicom_to_jpeg ev d output_path w;
          (results, w2) = executor_map ev output_path ds w1
      in (res # results, w2))"

definition summary :: "string list \<Rightarrow> string list" where
  \<comment> \<open>the lines of the loop \<^verbatim>\<open>for res in results: if res: print(res)\<close>\<close>
  "summary results = filter (\<lambda>res. res \<noteq> []) results"

definition no_files_message :: string where
  "no_files_message = cross_mark @ '' No DICOM files found.''"

definition banner :: "int \<Rightarrow> path list \<Rightarrow> path \<Rightarrow> path \<Rightarrow> string list" where
  "banner num_threads dicom_files input_path output_path =
     [[CHR 0xF0, CHR 0x9F, CHR 0x9A, CHR 0x80] @ '' Starting DICOM to JPEG conversion with ''
        @ str_int num_threads @ '' threads...'',
      [CHR 0xF0, CHR 0x9F, CHR 0x93, CHR 0x82] @ '' Found ''
        @ str_nat (length dicom_files) @ '' DICOM files.'',
      [CHR 0xF0, CHR 0x9F, CHR 0x93, CHR 0x82] @ '' Input Directory: '' @ path_str input_path,
      [CHR 0xF0, CHR 0x9F, CHR 0x92, CHR 0xBE] @ '' Output Directory: '' @ path_str output_path]"

definition complete_message :: string where
  "complete_message = [CHR 0xE2, CHR 0x9C, CHR 0x85] @ '' Conversion complete!''"

definition convert_dicom ::
    "nat \<Rightarrow> env \<Rightarrow> fs \<Rightarrow> path \<Rightarrow> path \<Rightarrow> int \<Rightarrow> ((exn + unit) \<times> string list \<times> fs) option" where
  \<comment> \<open>\<^verbatim>\<open>convert_dicom\<close> on resolved paths: how it ends, the lines printed, and the file
      system as it is left. The first argument bounds the recursion of the discovery.\<close>
  "convert_dicom k ev w input_path output_path num_threads =
     (case find_dicom_files k w input_path 3 of
        None \<Rightarrow> None
      | Some (Inl e) \<Rightarrow> Some (Inl e, [], w)
      | Some (Inr dicom_files) \<Rightarrow>
          if dicom_files = [] then Some (Inr (), [no_files_message], w)
          else
            let head = banner num_threads dicom_files input_path output_path in
            if num_threads \<le> 0 then
              Some (Inl (ValueError ''max_workers must be greater than 0''), head, w)
            else
              let (results, w') = executor_map ev output_path dicom_files w
              in Some (Inr (), head @ summary results @ [complete_message], w'))"

section \<open>Notions of the specification\<close>

definition files_at :: "fs \<Rightarrow> path \<Rightarrow> nat \<Rightarrow> path set" where
  \<comment> \<open>the regular files exactly \<open>n\<close> directory levels below \<open>p\<close>\<close>
  "files_at w p n = {descend p ns | ns. length ns = Suc n \<and> leads_to_file w p ns}"

definition converts_to :: "env \<Rightarrow> path \<Rightarrow> string \<Rightarrow> bool" where
  \<comment> \<open>the file \<open>f\<close> decodes, has pixel data that can be rescaled and encoded, and its
      patient folder is \<open>g\<close>\<close>
  "converts_to ev f g =
     (case dcmread ev f of
        Inl e \<Rightarrow> False
      | Inr ds \<Rightarrow>
          has_pixel_data ds \<and> get_patient_folder f 2 = Inr g \<and>
          (case pixel_array ds of
             Inl e \<Rightarrow> False
           | Inr a \<Rightarrow>
               (case rescale (fl ev) (cast_nonfinite ev) a of
                  Inl e \<Rightarrow> False
                | Inr pixels \<Rightarrow> (case fromarray ev pixels of Inl e \<Rightarrow> False | Inr img \<Rightarrow> True))))"

text \<open>
  A step of the converter raises \<open>e\<close>: the decoding, the resolution of the patient
  folder, the creation of the directory, the reading of the pixels, the rescaling, the
  encoding, or the writing. Every step is reached only when the ones before it went
  through and the object has pixel data.
\<close>

inductive step_raises :: "env \<Rightarrow> path \<Rightarrow> path \<Rightarrow> fs \<Rightarrow> exn \<Rightarrow> bool"
  for ev :: env and p :: path and out :: path and w :: fs where
  decoding: "dcmread ev p = Inl e \<Longrightarrow> step_raises ev p out w e"
| resolving:
    "dcmread ev p = Inr ds \<Longrightarrow> has_pixel_data ds \<Longrightarrow> get_patient_folder p 2 = Inl e \<Longrightarrow>
     step_raises ev p out w e"
| creating:
    "dcmread ev p = Inr ds \<Longrightarrow> has_pixel_data ds \<Longrightarrow> get_patient_folder p 2 = Inr g \<Longrightarrow>
     mkdir w (joinpath out g) = (Some e, w1) \<Longrightarrow>
     step_raises ev p out w e"
| reading:
    "dcmread ev p = Inr ds \<Longrightarrow> has_pixel_data ds \<Longrightarrow> get_patient_folder p 2 = Inr g \<Longrightarrow>
     mkdir w (joinpath out g) = (None, w1) \<Longrightarrow> pixel_array ds = Inl e \<Longrightarrow>
     step_raises ev p out w e"
| rescaling:
    "dcmread ev p = Inr ds \<Longrightarrow> has_pixel_data ds \<Longrightarrow> get_patient_folder p 2 = Inr g \<Longrightarrow>
     mkdir w (joinpath out g) = (None, w1) \<Longrightarrow> pixel_array ds = Inr a \<Longrightarrow>
     rescale (fl ev) (cast_nonfinite ev) a = Inl e \<Longrightarrow>
     step_raises ev p out w e"
| encoding:
    "dcmread ev p = Inr ds \<Longrightarrow> has_pixel_data ds \<Longrightarrow> get_patient_folder p 2 = Inr g \<Longrightarrow>
     mkdir w (joinpath out g) = (None, w1) \<Longrightarrow> pixel_array ds = Inr a \<Longrightarrow>
     rescale (fl ev) (cast_nonfinite ev) a = Inr px \<Longrightarrow> fromarray ev px = Inl e \<Longrightarrow>
     step_raises ev p out w e"
| writing:
    "dcmread ev p = Inr ds \<Longrightarrow> has_pixel_data ds \<Longrightarrow> get_patient_folder p 2 = Inr g \<Longrightarrow>
     mkdir w (joinpath out g) = (None, w1) \<Longrightarrow> pixel_array ds = Inr a \<Longrightarrow>
     rescale (fl ev) (cast_nonfinite ev) a = Inr px \<Longrightarrow> fromarray ev px = Inr img \<Longrightarrow>
     save w1 (joinpath (joinpath out g)
                (format_02d (length (glob_jpg w1 (joinpath out g))) @ ''.jpg'')) img
       = (Some e, w2) \<Longrightarrow>
     step_raises ev p out w e"

definition state_after :: "env \<Rightarrow> path \<Rightarrow> path list \<Rightarrow> fs \<Rightarrow> nat \<Rightarrow> fs" where
  \<comment> \<open>the file system after each of the first \<open>i\<close> files was converted once, in order\<close>
  "state_after ev out files w i =
     fold (\<lambda>f v. snd (convert_dicom_to_jpeg ev f out v)) (take i files) w"

definition jpg_name :: "nat \<Rightarrow> string" where
  "jpg_name k = format_02d k @ ''.jpg''"

definition holds_numbered :: "fs \<Rightarrow> path \<Rightarrow> nat \<Rightarrow> bool" where
  \<comment> \<open>the directory \<open>d\<close> holds the first \<open>k\<close> numbered images and nothing else\<close>
  "holds_numbered w d k =
     (node w d = Dir \<and> listing w d = map jpg_name [0..<k] \<and>
      (\<forall>n. n \<notin> set (listing w d) \<longrightarrow> node w (child d n) = Absent))"

definition digit_val :: "char \<Rightarrow> nat" where
  "digit_val c = of_char c - 48"

definition nat_of_digits :: "string \<Rightarrow> nat" where
  \<comment> \<open>reading a decimal numeral back\<close>
  "nat_of_digits s = foldl (\<lambda>a c. 10 * a + digit_val c) 0 s"

section \<open>Example inputs\<close>

definition example_file :: path where
  "example_file = \<lparr>anchored = True, parts = [''in'', ''patientA'', ''study'', ''series'', ''img1'']\<rparr>"

definition example_output :: path where
  "example_output = \<lparr>anchored = True, parts = [''out'']\<rparr>"

definition no_pixel_env :: env where
  \<comment> \<open>every file decodes to an object without pixel data\<close>
  "no_pixel_env =
     \<lparr>dcmread = (\<lambda>p. Inr \<lparr>has_pixel_data = False, pixel_array = Inl (LibError ''no pixels'')\<rparr>),
      fl = (\<lambda>x. x),
      cast_nonfinite = (\<lambda>x. 0),
      fromarray = (\<lambda>px. Inr px)\<rparr>"

definition failing_env :: env where
  \<comment> \<open>no file can be decoded\<close>
  "failing_env =
     \<lparr>dcmread = (\<lambda>p. Inl (LibError ''bad file'')),
      fl = (\<lambda>x. x),
      cast_nonfinite = (\<lambda>x. 0),
      fromarray = (\<lambda>px. Inr px)\<rparr>"

definition empty_fs :: fs where
  \<comment> \<open>only the root directory, with nothing in it\<close>
  "empty_fs = \<lparr>node = (\<lambda>p. if parts p = [] then Dir else Absent), listing = (\<lambda>p. [])\<rparr>"

definition example_file2 :: path where
  "example_file2 = \<lparr>anchored = True, parts = [''in'', ''patientA'', ''study'', ''series'', ''img2'']\<rparr>"

definition example_input :: path where
  "example_input = \<lparr>anchored = True, parts = [''in'']\<rparr>"

definition good_env :: env where
  \<comment> \<open>every file decodes to the same small 8-bit image\<close>
  "good_env =
     \<lparr>dcmread = (\<lambda>p. Inr \<lparr>has_pixel_data = True,
                             pixel_array = Inr \<lparr>dtype = UInt8, elems = [0, 128, 255]\<rparr>\<rparr>),
      fl = (\<lambda>x. x),
      cast_nonfinite = (\<lambda>x. 0),
      fromarray = (\<lambda>px. Inr px)\<rparr>"

definition example_fs :: fs where
  \<comment> \<open>\<^verbatim>\<open>/in/patientA/study/series/img1\<close> and, higher up, the file \<^verbatim>\<open>/in/readme\<close>\<close>
  "example_fs =
     \<lparr>node = (\<lambda>p.
        if parts p \<in> set [[], [''in''], [''in'', ''patientA''], [''in'', ''patientA'', ''study''],
                          [''in'', ''patientA'', ''study'', ''series'']] then Dir
        else if parts p \<in> set [[''in'', ''readme''],
                          [''in'', ''patientA'', ''study'', ''series'', ''img1'']] then File []
        else Absent),
      listing = (\<lambda>p.
        if parts p = [] then [''in'']
        else if parts p = [''in''] then [''patientA'', ''readme'']
        else if parts p = [''in'', ''patientA''] then [''study'']
        else if parts p = [''in'', ''patientA'', ''study''] then [''series'']
        else if parts p = [''in'', ''patientA'', ''study'', ''series''] then [''img1'']
        else [])\<rparr>"

definition endless_fs :: fs where
  \<comment> \<open>every path is a directory with the one entry \<^verbatim>\<open>a\<close>, as under a link to itself\<close>
  "endless_fs = \<lparr>node = (\<lambda>p. Dir), listing = (\<lambda>p. [''a''])\<rparr>"

section \<open>Properties of the rescaling\<close>

lemma wrap_zero: "wrap dt 0 = 0"
  by (cases dt) (simp_all add: wrap_def)

text \<open>
  C1. The claim: on every array whose minimum is below its maximum the rescaled array has
  minimum 0 and maximum 255, and the rescaling is monotonic. The code subtracts in the
  element type of the array, so on a signed array whose values span more than half of
  the range of the type the differences wrap around. On the 16-bit signed array
  \<open>[-32768, 255, 256, 32767]\<close> the pixel 255 becomes 255 and the larger pixel 256 becomes
  0: the rescaling is not monotonic there. Every intermediate value at this input is a
  whole number below \<open>2^24\<close>, so binary64 computes it exactly.
\<close>

theorem rescale_int16_wraps:
  "rescale (\<lambda>x. x) plat \<lparr>dtype = Int16, elems = [-32768, 255, 256, 32767]\<rparr> =
     Inr [0, 255, 0, 255]"
  by (simp add: rescale_def wrap_def true_divide_def trunc_def)

lemma wrap_in_range: "in_range dt v \<Longrightarrow> wrap dt v = v"
  by (cases dt) (simp_all add: wrap_def in_range_def)

lemma in_range_between: "in_range dt u \<Longrightarrow> 0 \<le> v \<Longrightarrow> v \<le> u \<Longrightarrow> in_range dt v"
  by (cases dt) (simp_all add: in_range_def)

text \<open>
  Where the spread of the array fits its element type, no difference wraps, and the
  rescaling is as the claim says: minimum 0, maximum 255, monotonic. This holds for every
  rounding \<open>r\<close> that is monotonic and leaves 0, 1 and 255 as they are, as rounding to
  nearest in binary64 does.
\<close>

lemma rescale_without_wrap:
  fixes r :: "rat \<Rightarrow> rat"
  assumes ne: "elems a \<noteq> []"
    and lt: "Min (set (elems a)) < Max (set (elems a))"
    and fit: "in_range (dtype a) (Max (set (elems a)) - Min (set (elems a)))"
    and mono: "\<And>x y. x \<le> y \<Longrightarrow> r x \<le> r y"
    and r0: "r 0 = 0" and r1: "r 1 = 1" and r255: "r 255 = 255"
  shows "\<exists>ys. rescale r plat a = Inr ys \<and> length ys = length (elems a) \<and>
           Min (set ys) = 0 \<and> Max (set ys) = 255 \<and>
           (\<forall>i < length ys. \<forall>j < length ys. elems a ! i \<le> elems a ! j \<longrightarrow> ys ! i \<le> ys ! j)"
proof -
  let ?mn = "Min (set (elems a))" and ?mx = "Max (set (elems a))"
  let ?den = "?mx - ?mn"
  define h where "h p = r (r (rat_of_int (p - ?mn) / rat_of_int ?den) * 255)" for p
  define g where "g p = nat \<lfloor>h p\<rfloor>" for p
  have den: "0 < ?den" using lt by simp
  have mn_in: "?mn \<in> set (elems a)" and mx_in: "?mx \<in> set (elems a)"
    using ne by (simp_all add: Min_in Max_in)
  have bounds: "?mn \<le> p \<and> p \<le> ?mx" if "p \<in> set (elems a)" for p
    using that by simp
  have h_mono: "h p \<le> h q" if "p \<le> q" for p q
  proof -
    have "rat_of_int (p - ?mn) / rat_of_int ?den \<le> rat_of_int (q - ?mn) / rat_of_int ?den"
      using that den by (simp add: divide_right_mono)
    then have "r (rat_of_int (p - ?mn) / rat_of_int ?den) * 255
        \<le> r (rat_of_int (q - ?mn) / rat_of_int ?den) * 255"
      using mono by simp
    then show ?thesis unfolding h_def by (rule mono)
  qed
  have h_mn: "h ?mn = 0" by (simp add: h_def r0)
  have h_mx: "h ?mx = 255" using den by (simp add: h_def r1 r255)
  have h_range: "0 \<le> h p \<and> h p \<le> 255" if "p \<in> set (elems a)" for p
    using h_mono[of ?mn p] h_mono[of p ?mx] bounds[OF that] h_mn h_mx by simp
  have step: "astype_uint8 plat (times255 r (true_divide r (wrap (dtype a) (p - ?mn)) (wrap (dtype a) ?den)))
      = g p" if p: "p \<in> set (elems a)" for p
  proof -
    have "in_range (dtype a) (p - ?mn)"
      using in_range_between[OF fit, of "p - ?mn"] bounds[OF p] by simp
    then have w1: "wrap (dtype a) (p - ?mn) = p - ?mn" by (rule wrap_in_range)
    have w2: "wrap (dtype a) ?den = ?den" using fit by (rule wrap_in_range)
    have fl: "0 \<le> \<lfloor>h p\<rfloor>" "\<lfloor>h p\<rfloor> \<le> 255"
      using h_range[OF p] by (simp_all add: floor_le_iff)
    then have "\<lfloor>h p\<rfloor> mod 256 = \<lfloor>h p\<rfloor>" by simp
    then show ?thesis
      using den h_range[OF p] by (simp add: w1 w2 true_divide_def trunc_def g_def h_def)
  qed
  have res: "rescale r plat a = Inr (map g (elems a))"
    using ne step by (simp add: rescale_def Let_def)
  have g_mono: "g p \<le> g q" if "p \<le> q" for p q
    unfolding g_def using h_mono[OF that] by (simp add: floor_mono nat_mono)
  have g_mn: "g ?mn = 0" by (simp add: g_def h_mn)
  have g_mx: "g ?mx = 255" by (simp add: g_def h_mx)
  have g_le: "g p \<le> 255" if "p \<in> set (elems a)" for p
    using g_mono[of p ?mx] bounds[OF that] g_mx by simp
  have mn: "Min (set (map g (elems a))) = 0"
  proof (rule Min_eqI)
    show "0 \<in> set (map g (elems a))" using mn_in g_mn by force
  qed simp_all
  have mx: "Max (set (map g (elems a))) = 255"
  proof (rule Max_eqI)
    show "255 \<in> set (map g (elems a))" using mx_in g_mx by force
    show "\<And>y. y \<in> set (map g (elems a)) \<Longrightarrow> y \<le> 255" using g_le by auto
  qed simp
  show ?thesis using res mn mx g_mono by simp
qed

text \<open>
  On an array of an unsigned type the spread always fits: the elements lie in the range
  of the type, so their differences with the minimum do not wrap.
\<close>

lemma spread_fits_unsigned:
  fixes r :: "rat \<Rightarrow> rat"
  assumes "\<not> is_signed (dtype a)" and "\<forall>p \<in> set (elems a). in_range (dtype a) p"
    and ne: "elems a \<noteq> []"
    and lt: "Min (set (elems a)) < Max (set (elems a))"
  shows "in_range (dtype a) (Max (set (elems a)) - Min (set (elems a)))"
proof -
  have "Min (set (elems a)) \<in> set (elems a)" "Max (set (elems a)) \<in> set (elems a)"
    using ne by (simp_all add: Min_in Max_in)
  with assms(2) have "in_range (dtype a) (Min (set (elems a)))" "in_range (dtype a) (Max (set (elems a)))"
    by blast+
  with assms(1) lt show ?thesis by (simp add: in_range_def)
qed

text \<open>
  On an array that is not empty and whose minimum equals its maximum the rescaling raises
  nothing: every quotient is zero by zero, which is \<open>nan\<close>, and every pixel of the
  output is the byte that the platform gives for \<open>nan\<close>. The code has no branch for
  this case and chooses no value of its own.
\<close>

lemma rescale_constant_is_nan_cast:
  assumes "elems a \<noteq> []" and "Min (set (elems a)) = Max (set (elems a))"
  shows "rescale r plat a = Inr (replicate (length (elems a)) (plat NaN mod 256))"
proof -
  let ?mn = "Min (set (elems a))"
  have eq: "p - ?mn = 0" if "p \<in> set (elems a)" for p
  proof -
    have "?mn \<le> p" "p \<le> Max (set (elems a))" using that by simp_all
    with assms(2) show ?thesis by simp
  qed
  have "map (\<lambda>p. astype_uint8 plat (times255 r (true_divide r (wrap (dtype a) (p - ?mn)) 0)))
          (elems a)
      = map (\<lambda>p. plat NaN mod 256) (elems a)"
    by (rule map_cong) (simp_all add: eq wrap_zero true_divide_def)
  then show ?thesis
    using assms by (simp add: rescale_def wrap_zero map_replicate_const comp_def)
qed

text \<open>
  C2. The claim: on a constant array the rescaling raises no numeric exception and gives
  a defined, deterministic fallback image. No exception is raised, but the image is not
  defined by the code: on the array \<open>[7, 7, 7]\<close> a platform whose conversion turns
  \<open>nan\<close> into 0 gives the black image, and one that turns it into 255 gives the white
  one.
\<close>

theorem rescale_constant_array_open:
  "rescale (\<lambda>x. x) (\<lambda>x. 0) \<lparr>dtype = UInt16, elems = [7, 7, 7]\<rparr> = Inr [0, 0, 0] \<and>
   rescale (\<lambda>x. x) (\<lambda>x. 255) \<lparr>dtype = UInt16, elems = [7, 7, 7]\<rparr> = Inr [255, 255, 255]"
  by (simp add: rescale_def wrap_def true_divide_def)

section \<open>Properties of the Patient Path Resolver\<close>

lemma length_parents: "length (parents p) = length (parts p)"
  by (simp add: parents_def)

lemma parents_nth:
  "l < length (parts p) \<Longrightarrow>
     parents p ! l = p\<lparr>parts := take (length (parts p) - Suc l) (parts p)\<rparr>"
  by (simp add: parents_def rev_nth)

text \<open>
  C5. For an offset that is not negative: a path with no more ancestors than the offset
  makes the resolver raise the index error, and it returns no name; a path with more
  ancestors than the offset gives the name of the path that is left when the last
  \<open>levels_up + 1\<close> components are taken away.
\<close>

theorem get_patient_folder_by_depth:
  assumes "0 \<le> levels_up"
  shows "(length (parents p) \<le> nat levels_up \<longrightarrow>
            get_patient_folder p levels_up = Inl (IndexError (str_int levels_up))) \<and>
         (nat levels_up < length (parents p) \<longrightarrow>
            get_patient_folder p levels_up =
              Inr (name (p\<lparr>parts := take (length (parts p) - (nat levels_up + 1)) (parts p)\<rparr>)))"
  using assms by (auto simp: get_patient_folder_def Let_def length_parents parents_nth)

theorem get_patient_folder_by_depth_witness:
  "get_patient_folder example_file 2 = Inr ''patientA'' \<and>
   get_patient_folder \<lparr>anchored = True, parts = [''in'', ''img1'']\<rparr> 2 = Inl (IndexError ''2'')"
  using get_patient_folder_by_depth [of 2 example_file]
    get_patient_folder_by_depth [of 2 "\<lparr>anchored = True, parts = [''in'', ''img1'']\<rparr>"]
  by (simp add: example_file_def length_parents name_def str_int_def str_nat.simps [of 2] digit_def)

section \<open>Properties of the Single-File Converter\<close>

lemma sublist_path_skip: "sublist (path_str p) (skip_message p)"
  unfolding skip_message_def sublist_def by blast

lemma sublist_path_error: "sublist (path_str p) (error_message p e)"
proof -
  have "error_message p e = (cross_mark @ '' Error processing '') @ path_str p @ ('': '' @ exn_str e)"
    by (simp add: error_message_def)
  then show ?thesis unfolding sublist_def by blast
qed

lemma length_executor_map: "length (fst (executor_map ev out files w)) = length files"
  by (induction files arbitrary: w) (simp_all add: split_beta Let_def)

lemma convert_result_nonempty: "fst (convert_dicom_to_jpeg ev p out w) \<noteq> []"
  by (auto simp: convert_dicom_to_jpeg_def error_message_def cross_mark_def
      saved_message_def check_mark_def skip_message_def try_block_def Let_def
      split: sum.splits prod.splits option.splits if_splits)

lemma summary_executor_map:
  "summary (fst (executor_map ev out files w)) = fst (executor_map ev out files w)"
proof -
  have "\<forall>res \<in> set (fst (executor_map ev out files v)). res \<noteq> []" for v
  proof (induction files arbitrary: v)
    case Nil
    show ?case by simp
  next
    case (Cons f fs)
    show ?case
      using convert_result_nonempty [of ev f out v]
        Cons.IH [of "snd (convert_dicom_to_jpeg ev f out v)"]
      by (simp add: split_beta Let_def)
  qed
  then show ?thesis
    unfolding summary_def by (simp add: filter_id_conv)
qed

text \<open>
  C7. When the decoded object has no pixel data, the converter returns the skip message,
  which contains the source path, and the file system is left as it was: no directory is
  created and no file is written.
\<close>

theorem no_pixel_data_skips:
  assumes "dcmread ev p = Inr ds" and "\<not> has_pixel_data ds"
  shows "convert_dicom_to_jpeg ev p out w = (skip_message p, w) \<and>
         sublist (path_str p) (skip_message p)"
  using assms by (simp add: convert_dicom_to_jpeg_def try_block_def sublist_path_skip)

theorem no_pixel_data_skips_witness:
  "convert_dicom_to_jpeg no_pixel_env example_file example_output empty_fs =
     (''Skipping /in/patientA/study/series/img1 - No Pixel Data Found'', empty_fs)"
  using no_pixel_data_skips [of no_pixel_env example_file
      "\<lparr>has_pixel_data = False, pixel_array = Inl (LibError ''no pixels'')\<rparr>" example_output empty_fs]
  by (simp add: no_pixel_env_def skip_message_def path_str_def example_file_def)

text \<open>
  C9. The converter returns a string that is not empty, whatever branch it takes; so the
  loop that prints the results drops none of them, and there is one result for every
  file of the batch.
\<close>

theorem results_never_empty:
  "fst (convert_dicom_to_jpeg ev p out w) \<noteq> [] \<and>
   summary (fst (executor_map ev out files w)) = fst (executor_map ev out files w) \<and>
   length (summary (fst (executor_map ev out files w))) = length files"
  by (simp add: convert_result_nonempty summary_executor_map length_executor_map)

text \<open>
  So a run that finds files and has a worker count above 0 prints the banner, then every
  result in the order of the files, then the closing line.
\<close>

lemma convert_dicom_prints_every_result:
  assumes "find_dicom_files k w input_path 3 = Some (Inr dicom_files)"
    and "dicom_files \<noteq> []" and "0 < num_threads"
  shows "convert_dicom k ev w input_path output_path num_threads =
           Some (Inr (),
                 banner num_threads dicom_files input_path output_path
                   @ fst (executor_map ev output_path dicom_files w) @ [complete_message],
                 snd (executor_map ev output_path dicom_files w))"
  using assms by (simp add: convert_dicom_def Let_def split_beta summary_executor_map)

lemma step_raises_try_block:
  "step_raises ev p out w e \<Longrightarrow> fst (try_block ev p out w) = Inl e"
  by (induction rule: step_raises.induct) (simp_all add: try_block_def Let_def)

lemma try_block_step_raises:
  assumes "fst (try_block ev p out w) = Inl e"
  shows "step_raises ev p out w e"
proof (cases "dcmread ev p")
  case (Inl e')
  with assms show ?thesis by (auto simp: try_block_def intro: step_raises.decoding)
next
  case ds: (Inr ds)
  with assms have hp: "has_pixel_data ds" by (auto simp: try_block_def split: if_splits)
  show ?thesis
  proof (cases "get_patient_folder p 2")
    case (Inl e')
    with assms ds hp show ?thesis by (auto simp: try_block_def intro: step_raises.resolving)
  next
    case g: (Inr g)
    obtain r w1 where m: "mkdir w (joinpath out g) = (r, w1)" by (cases "mkdir w (joinpath out g)")
    show ?thesis
    proof (cases r)
      case (Some e')
      with assms ds hp g m show ?thesis
        by (auto simp: try_block_def Let_def intro: step_raises.creating)
    next
      case None
      note m = m [unfolded None]
      show ?thesis
      proof (cases "pixel_array ds")
        case (Inl e')
        with assms ds hp g m show ?thesis
          by (auto simp: try_block_def Let_def intro: step_raises.reading)
      next
        case a: (Inr a)
        show ?thesis
        proof (cases "rescale (fl ev) (cast_nonfinite ev) a")
          case (Inl e')
          with assms ds hp g m a show ?thesis
            by (auto simp: try_block_def Let_def intro: step_raises.rescaling)
        next
          case px: (Inr px)
          show ?thesis
          proof (cases "fromarray ev px")
            case (Inl e')
            with assms ds hp g m a px show ?thesis
              by (auto simp: try_block_def Let_def intro: step_raises.encoding)
          next
            case img: (Inr img)
            let ?f = "joinpath (joinpath out g)
                (format_02d (length (glob_jpg w1 (joinpath out g))) @ ''.jpg'')"
            obtain r2 w2 where sv: "save w1 ?f img = (r2, w2)" by (cases "save w1 ?f img")
            with assms ds hp g m a px img have "r2 = Some e"
              by (cases r2) (auto simp: try_block_def Let_def)
            with sv have "save w1 ?f img = (Some e, w2)" by simp
            from step_raises.writing [OF ds hp g m a px img this] show ?thesis .
          qed
        qed
      qed
    qed
  qed
qed

lemma executor_map_once:
  "executor_map ev out files w =
     (map (\<lambda>i. fst (convert_dicom_to_jpeg ev (files ! i) out (state_after ev out files w i)))
        [0..<length files],
      state_after ev out files w (length files))"
proof (induction files arbitrary: w)
  case Nil
  show ?case by (simp add: state_after_def)
next
  case (Cons f fs)
  let ?v = "snd (convert_dicom_to_jpeg ev f out w)"
  have st: "state_after ev out (f # fs) w (Suc i) = state_after ev out fs ?v i" for i
    by (simp add: state_after_def)
  have idx: "[0..<length (f # fs)] = 0 # map Suc [0..<length fs]"
    by (simp add: upt_conv_Cons map_Suc_upt del: upt_Suc)
  have "map (\<lambda>i. fst (convert_dicom_to_jpeg ev ((f # fs) ! i) out
                      (state_after ev out (f # fs) w i))) [0..<length (f # fs)]
      = fst (convert_dicom_to_jpeg ev f out w)
        # map (\<lambda>i. fst (convert_dicom_to_jpeg ev (fs ! i) out (state_after ev out fs ?v i)))
            [0..<length fs]"
    unfolding idx by (simp add: st comp_def) (simp add: state_after_def)
  then show ?case
    using Cons.IH [of ?v] by (simp add: split_beta Let_def st del: upt_Suc)
qed

text \<open>
  C6. An exception raised by a step of the converter (decoding, resolution of the patient
  folder, creation of the directory, reading of the pixels, rescaling, encoding, writing)
  never leaves it: the converter returns the error message, which contains the source
  path. The batch goes through every file whatever the single results are: it has one
  result for each file, the result at each position is the one of converting the file at
  that position in the state that converting each earlier file once has left, and the
  state at the end is the one after converting every file once. So no file is converted a
  second time; a batch of one file is the single conversion of that file.
\<close>

theorem exceptions_become_results:
  "(step_raises ev p out w e \<longrightarrow>
      fst (convert_dicom_to_jpeg ev p out w) = error_message p e \<and>
      sublist (path_str p) (error_message p e)) \<and>
   (fst (try_block ev p out w) = Inl e \<longrightarrow>
      step_raises ev p out w e \<and>
      convert_dicom_to_jpeg ev p out w = (error_message p e, snd (try_block ev p out w))) \<and>
   length (fst (executor_map ev out files w0)) = length files \<and>
   executor_map ev out files w0 =
     (map (\<lambda>i. fst (convert_dicom_to_jpeg ev (files ! i) out (state_after ev out files w0 i)))
        [0..<length files],
      state_after ev out files w0 (length files)) \<and>
   executor_map ev out [p] w =
     ([fst (convert_dicom_to_jpeg ev p out w)], snd (convert_dicom_to_jpeg ev p out w))"
proof -
  have t: "convert_dicom_to_jpeg ev p out w = (error_message p e, snd (try_block ev p out w))"
    if "fst (try_block ev p out w) = Inl e"
    using that by (cases "try_block ev p out w") (simp add: convert_dicom_to_jpeg_def)
  have a: "step_raises ev p out w e \<longrightarrow>
      fst (convert_dicom_to_jpeg ev p out w) = error_message p e \<and>
      sublist (path_str p) (error_message p e)"
    using t step_raises_try_block [of ev p out w e] by (simp add: sublist_path_error)
  have b: "fst (try_block ev p out w) = Inl e \<longrightarrow>
      step_raises ev p out w e \<and>
      convert_dicom_to_jpeg ev p out w = (error_message p e, snd (try_block ev p out w))"
    using t try_block_step_raises [of ev p out w e] by simp
  have c: "executor_map ev out [p] w =
     ([fst (convert_dicom_to_jpeg ev p out w)], snd (convert_dicom_to_jpeg ev p out w))"
    by (simp add: split_beta)
  have d: "length (fst (executor_map ev out files w0)) = length files"
    by (rule length_executor_map)
  show ?thesis
    by (intro conjI) (rule a b c d executor_map_once)+
qed

theorem exceptions_become_results_witness:
  "fst (convert_dicom_to_jpeg failing_env example_file example_output empty_fs) =
     cross_mark @ '' Error processing /in/patientA/study/series/img1: bad file''"
proof -
  have r: "step_raises failing_env example_file example_output empty_fs (LibError ''bad file'')"
    by (rule step_raises.decoding) (simp add: failing_env_def)
  show ?thesis
    using r exceptions_become_results [of failing_env example_file example_output empty_fs
        "LibError ''bad file''" "[example_file]" empty_fs]
    by (simp add: error_message_def path_str_def example_file_def)
qed

section \<open>Properties of the File Discoverer\<close>

lemma extend_all_ok:
  "(\<And>x. x \<in> set xs \<Longrightarrow> \<exists>fs. f x = Some (Inr fs) \<and> set fs = S x) \<Longrightarrow>
   \<exists>fs. extend_all (map f xs) = Some (Inr fs) \<and> set fs = (\<Union>x\<in>set xs. S x)"
proof (induction xs)
  case Nil
  then show ?case by simp
next
  case (Cons x xs)
  from Cons.prems obtain fs where fs: "f x = Some (Inr fs)" "set fs = S x" by auto
  from Cons.IH Cons.prems obtain gs where gs: "extend_all (map f xs) = Some (Inr gs)"
      "set gs = (\<Union>x\<in>set xs. S x)" by auto
  show ?case using fs gs by auto
qed

lemma descend_Cons: "descend p (n # ns) = descend (child p n) ns"
  by (simp add: descend_def child_def)

lemma descend_single: "descend p [n] = child p n"
  by (simp add: descend_def child_def)

lemma files_at_0: "files_at w p 0 = {child p n | n. n \<in> set (listing w p) \<and> is_file w (child p n)}"
proof (rule set_eqI, rule iffI)
  fix q assume "q \<in> files_at w p 0"
  then obtain ns where ns: "q = descend p ns" "length ns = Suc 0" "leads_to_file w p ns"
    by (auto simp: files_at_def)
  from ns(2) obtain n where "ns = [n]" by (cases ns) auto
  with ns show "q \<in> {child p n | n. n \<in> set (listing w p) \<and> is_file w (child p n)}"
    by (auto simp: descend_single)
next
  fix q assume "q \<in> {child p n | n. n \<in> set (listing w p) \<and> is_file w (child p n)}"
  then obtain n where n: "q = child p n" "n \<in> set (listing w p)" "is_file w (child p n)"
    by auto
  then have "q = descend p [n] \<and> length [n] = Suc 0 \<and> leads_to_file w p [n]"
    by (simp add: descend_single)
  then show "q \<in> files_at w p 0"
    unfolding files_at_def by blast
qed

lemma files_at_Suc: "files_at w p (Suc n) =
   (\<Union>s \<in> {s \<in> set (listing w p). is_dir w (child p s)}. files_at w (child p s) n)"
proof (rule set_eqI, rule iffI)
  fix q assume "q \<in> files_at w p (Suc n)"
  then obtain ns where ns: "q = descend p ns" "length ns = Suc (Suc n)" "leads_to_file w p ns"
    by (auto simp: files_at_def)
  from ns(2) obtain a b bs where abs: "ns = a # b # bs"
    by (cases ns; cases "tl ns") auto
  with ns have "a \<in> set (listing w p)" "is_dir w (child p a)"
     "q = descend (child p a) (b # bs)" "length (b # bs) = Suc n"
     "leads_to_file w (child p a) (b # bs)"
    by (auto simp: descend_Cons)
  then have "a \<in> {s \<in> set (listing w p). is_dir w (child p s)}" "q \<in> files_at w (child p a) n"
    unfolding files_at_def by blast+
  then show "q \<in> (\<Union>s \<in> {s \<in> set (listing w p). is_dir w (child p s)}. files_at w (child p s) n)"
    by blast
next
  fix q assume "q \<in> (\<Union>s \<in> {s \<in> set (listing w p). is_dir w (child p s)}. files_at w (child p s) n)"
  then obtain s ns where s: "s \<in> set (listing w p)" "is_dir w (child p s)"
      "q = descend (child p s) ns" "length ns = Suc n" "leads_to_file w (child p s) ns"
    by (auto simp: files_at_def)
  from s(4) obtain b bs where "ns = b # bs" by (cases ns) auto
  with s have "q = descend p (s # ns) \<and> length (s # ns) = Suc (Suc n) \<and> leads_to_file w p (s # ns)"
    by (simp add: descend_Cons)
  then show "q \<in> files_at w p (Suc n)"
    unfolding files_at_def by blast
qed

lemma find_aux:
  "is_dir w p \<Longrightarrow> n < k \<Longrightarrow>
   \<exists>fs. find_dicom_files k w p (int n) = Some (Inr fs) \<and> set fs = files_at w p n"
proof (induction n arbitrary: p k)
  case 0
  then obtain k' where k: "k = Suc k'" by (cases k) auto
  show ?case using 0 
    by (auto simp: k iterdir_def is_dir_def files_at_0)
next
  case (Suc n)
  then obtain k' where k: "k = Suc k'" and nk: "n < k'" by (cases k) auto
  let ?subs = "filter (is_dir w) (map (child p) (listing w p))"
  have "\<exists>fs. extend_all (map (\<lambda>s. find_dicom_files k' w s (int n)) ?subs) = Some (Inr fs)
          \<and> set fs = (\<Union>s\<in>set ?subs. files_at w s n)"
    by (rule extend_all_ok) (use Suc.IH nk in auto)
  moreover have "(\<Union>s\<in>set ?subs. files_at w s n) = files_at w p (Suc n)"
    by (auto simp: files_at_Suc)
  moreover have "find_dicom_files k w p (int (Suc n)) =
      extend_all (map (\<lambda>s. find_dicom_files k' w s (int n)) ?subs)"
    using Suc.prems(1) by (simp add: k iterdir_def is_dir_def)
  ultimately show ?case by simp
qed

lemma find_not_dir: "\<not> is_dir w p \<Longrightarrow> \<exists>e. find_dicom_files (Suc k) w p d = Some (Inl e)"
  by (auto simp: iterdir_def is_dir_def split: node.splits)

text \<open>
  C3. Started on a directory with a depth \<open>D\<close> that is not negative, the discoverer
  returns a list that holds exactly the regular files \<open>D\<close> directory levels below it:
  the paths that lead through \<open>D\<close> listed directories to a listed regular file. Files
  higher or lower, and whatever hangs under an entry that is not a directory, are not in it.
\<close>

theorem find_dicom_files_exact:
  assumes "is_dir w input_path" and "0 \<le> depth"
  shows "\<exists>fs. find_dicom_files (Suc (nat depth)) w input_path depth = Some (Inr fs) \<and>
              set fs = files_at w input_path (nat depth)"
  using find_aux [OF assms(1), of "nat depth" "Suc (nat depth)"] assms(2) by simp

theorem find_dicom_files_exact_witness:
  "\<exists>fs. find_dicom_files (Suc (nat 3)) example_fs example_input 3 = Some (Inr fs) \<and>
         set fs = files_at example_fs example_input (nat 3)"
  using find_dicom_files_exact [of example_fs example_input 3]
  by (simp add: is_dir_def example_fs_def example_input_def)

text \<open>
  C10. For a depth that is not negative the discoverer returns, on every file system and
  from every path: a nesting of \<open>depth + 1\<close> calls is enough, since every recursive call
  lowers the depth by one and the call at depth 0 makes none.
\<close>

theorem find_dicom_files_terminates:
  assumes "0 \<le> depth" and "nat depth < k"
  shows "\<exists>r. find_dicom_files k w input_path depth = Some r"
proof (cases "is_dir w input_path")
  case True
  from find_aux [OF True assms(2)] assms(1) show ?thesis by auto
next
  case False
  from assms(2) obtain k' where "k = Suc k'" by (cases k) auto
  with find_not_dir [OF False] show ?thesis by auto
qed

theorem find_dicom_files_terminates_witness:
  "\<exists>r. find_dicom_files 4 endless_fs example_input 3 = Some r"
  using find_dicom_files_terminates [of 3 4 endless_fs example_input] by simp

text \<open>
  The bound on the depth is needed: with a negative depth the test for 0 never holds, and
  on an endless chain of directories no nesting of calls is enough.
\<close>

lemma find_dicom_files_negative_depth:
  "depth < 0 \<Longrightarrow> find_dicom_files k endless_fs p depth = None"
proof (induction k arbitrary: p depth)
  case 0
  show ?case by simp
next
  case (Suc k)
  from Suc.prems have "depth - 1 < 0" by simp
  then have "find_dicom_files k endless_fs (child p ''a'') (depth - 1) = None"
    by (rule Suc.IH)
  with Suc.prems show ?case
    by (simp add: iterdir_def endless_fs_def is_dir_def)
qed

lemma find_dicom_files_example:
  "find_dicom_files 4 example_fs example_input 3 = Some (Inr [example_file])"
  by (simp add: numeral_eq_Suc iterdir_def is_dir_def is_file_def child_def
      example_fs_def example_input_def example_file_def)

section \<open>Properties of the numbering\<close>

lemma digit_val_digit: "n < 10 \<Longrightarrow> digit_val (digit n) = n"
proof -
  have "\<forall>m \<in> {..<10}. digit_val (digit m) = m"
    by (simp add: lessThan_nat_numeral lessThan_Suc digit_val_def digit_def)
  then show "n < 10 \<Longrightarrow> digit_val (digit n) = n" by simp
qed

lemma nat_of_digits_snoc: "nat_of_digits (s @ [c]) = 10 * nat_of_digits s + digit_val c"
  by (simp add: nat_of_digits_def)

lemma nat_of_digits_str_nat: "nat_of_digits (str_nat n) = n"
proof (induction n rule: str_nat.induct)
  case (1 n)
  show ?case
  proof (cases "n < 10")
    case True
    then show ?thesis
      by (simp add: str_nat.simps[of n] nat_of_digits_def digit_val_digit)
  next
    case False
    with 1 have "nat_of_digits (str_nat (n div 10)) = n div 10" by simp
    with False show ?thesis
      by (simp add: str_nat.simps[of n] nat_of_digits_snoc digit_val_digit)
  qed
qed

lemma nat_of_digits_format: "nat_of_digits (format_02d n) = n"
proof -
  have "nat_of_digits (CHR ''0'' # s) = nat_of_digits s" for s
    by (simp add: nat_of_digits_def digit_val_def)
  then show ?thesis
    by (simp add: format_02d_def nat_of_digits_str_nat)
qed

lemma jpg_name_inj: "jpg_name i = jpg_name j \<Longrightarrow> i = j"
proof -
  assume "jpg_name i = jpg_name j"
  then have "format_02d i = format_02d j" by (simp add: jpg_name_def)
  then have "nat_of_digits (format_02d i) = nat_of_digits (format_02d j)" by simp
  then show ?thesis by (simp add: nat_of_digits_format)
qed

lemma jpg_name_nonempty: "jpg_name k \<noteq> []"
  by (simp add: jpg_name_def)

lemma jpg_name_suffix: "suffix ''.jpg'' (jpg_name k)"
  by (simp add: jpg_name_def suffix_def)

lemma child_inj: "child d n = child d m \<Longrightarrow> n = m"
  by (simp add: child_def) (metis (no_types) append1_eq_conv path.select_convs(2) path.surjective path.update_convs(2))

lemma parent_child: "parent (child d n) = d"
  by (simp add: parent_def child_def)

lemma name_child: "name (child d n) = n"
  by (simp add: name_def child_def)

lemma child_neq: "child d n \<noteq> d"
proof
  assume "child d n = d"
  then have "parts (child d n) = parts d" by simp
  then show False by (simp add: child_def)
qed

lemma mkdir_frame:
  "mkdir w p = (r, w1) \<Longrightarrow> \<not> prefix (parts q) (parts p) \<Longrightarrow> node w1 q = node w q"
proof (induction w p arbitrary: r w1 rule: mkdir.induct)
  case (1 w p)
  have qp: "q \<noteq> p" using "1.prems"(2) by auto
  show ?case
  proof (cases "os_mkdir w p")
    case (Inr w')
    with "1.prems" have "w1 = w'" by (simp add: mkdir.simps[of w p])
    with Inr qp show ?thesis
      by (auto simp: os_mkdir_def split: if_splits)
  next
    case (Inl e)
    show ?thesis
    proof (cases "is_not_found e \<and> parent p \<noteq> p")
      case False
      with Inl "1.prems" show ?thesis
        by (auto simp: mkdir.simps[of w p] split: if_splits)
    next
      case True
      obtain r' w' where rec: "mkdir w (parent p) = (r', w')" by (cases "mkdir w (parent p)")
      have "\<not> prefix (parts q) (parts (parent p))"
        using "1.prems"(2) by (metis parent_def path.select_convs(2) path.surjective path.update_convs(2) prefix_order.order_trans prefixeq_butlast)
      with "1.IH"[OF Inl _ _ rec] True have fr: "node w' q = node w q" by simp
      show ?thesis
      proof (cases r')
        case (Some e')
        with True Inl rec "1.prems"(1) have "w1 = w'" by (simp add: mkdir.simps[of w p])
        with fr show ?thesis by simp
      next
        case None
        with True Inl rec "1.prems"(1) have "mkdir_exist_ok w' p = (r, w1)"
          by (simp add: mkdir.simps[of w p])
        then have "node w1 q = node w' q" using qp
          by (auto simp: mkdir_exist_ok_def os_mkdir_def split: sum.splits if_splits)
        with fr show ?thesis by simp
      qed
    qed
  qed
qed


lemma mkdir_creates:
  assumes "mkdir w d = (None, w1)" and "node w d = Absent"
    and "\<forall>n. node w (child d n) = Absent"
  shows "holds_numbered w1 d 0"
proof -
  have step: "node v d = Absent \<Longrightarrow> (\<forall>n. node v (child d n) = Absent) \<Longrightarrow>
      os_mkdir v d = Inr v1 \<Longrightarrow> holds_numbered v1 d 0" for v v1
    by (auto simp: os_mkdir_def holds_numbered_def child_neq split: if_splits)
  show ?thesis
  proof (cases "os_mkdir w d")
    case (Inr w')
    with assms(1) have "w1 = w'" by (simp add: mkdir.simps[of w d])
    with step[OF assms(2,3) Inr] show ?thesis by simp
  next
    case (Inl e)
    have nd: "\<not> is_dir w d" using assms(2) by (simp add: is_dir_def)
    from Inl assms(1) nd have nf: "is_not_found e" and pp: "parent d \<noteq> d"
      by (auto simp: mkdir.simps[of w d] split: if_splits)
    obtain r' w' where rec: "mkdir w (parent d) = (r', w')" by (cases "mkdir w (parent d)")
    from Inl assms(1) nf pp rec have r': "r' = None" and ex: "mkdir_exist_ok w' d = (None, w1)"
      by (auto simp: mkdir.simps[of w d] split: option.splits)
    have pne: "parts d \<noteq> []" using pp by (auto simp: parent_def)
    have np1: "\<not> prefix (parts d) (parts (parent d))"
    proof
      assume "prefix (parts d) (parts (parent d))"
      then have "length (parts d) \<le> length (parts (parent d))" by (rule prefix_length_le)
      moreover have "length (parts (parent d)) = length (parts d) - 1" by (simp add: parent_def)
      moreover have "0 < length (parts d)" using pne by simp
      ultimately show False by linarith
    qed
    have np2: "\<not> prefix (parts (child d n)) (parts (parent d))" for n
    proof
      assume "prefix (parts (child d n)) (parts (parent d))"
      then have "length (parts (child d n)) \<le> length (parts (parent d))"
        by (rule prefix_length_le)
      then show False by (simp add: parent_def child_def)
    qed
    have a1: "node w' d = Absent" using mkdir_frame[OF rec np1] assms(2) by simp
    have a2: "\<forall>n. node w' (child d n) = Absent" using mkdir_frame[OF rec np2] assms(3) by simp
    have nd': "\<not> is_dir w' d" using a1 by (simp add: is_dir_def)
    from ex nd' obtain v where "os_mkdir w' d = Inr v" "w1 = v"
      by (auto simp: mkdir_exist_ok_def split: sum.splits if_splits)
    with step[OF a1 a2] show ?thesis by simp
  qed
qed

lemma mkdir_existing: "holds_numbered w d k \<Longrightarrow> mkdir w d = (None, w)"
  by (simp add: mkdir.simps[of w d] holds_numbered_def os_mkdir_def is_dir_def)

lemma length_glob: "holds_numbered w d k \<Longrightarrow> length (glob_jpg w d) = k"
  by (simp add: glob_jpg_def holds_numbered_def jpg_name_suffix)

lemma save_next:
  assumes "holds_numbered w d k"
  shows "\<exists>w2. save w (child d (jpg_name k)) img = (None, w2) \<and> holds_numbered w2 d (Suc k)"
proof -
  have notin: "jpg_name k \<notin> set (listing w d)"
    using assms by (auto simp: holds_numbered_def dest: jpg_name_inj)
  then have ab: "node w (child d (jpg_name k)) = Absent"
    using assms by (simp add: holds_numbered_def)
  have dir: "node w d = Dir" using assms by (simp add: holds_numbered_def)
  let ?w2 = "w\<lparr>node := (node w)(child d (jpg_name k) := File img),
                 listing := (listing w)(d := listing w d @ [jpg_name k])\<rparr>"
  have s: "save w (child d (jpg_name k)) img = (None, ?w2)"
    by (simp add: save_def parent_child name_child ab dir)
  have "holds_numbered ?w2 d (Suc k)"
    using assms by (auto simp: holds_numbered_def child_neq[symmetric] dest: child_inj)
  with s show ?thesis by blast
qed

lemma convert_next:
  assumes m: "mkdir w d = (None, w1)" and h: "holds_numbered w1 d k"
    and c: "converts_to ev f g" and d: "d = joinpath out g"
  shows "\<exists>w2. convert_dicom_to_jpeg ev f out w = (saved_message (child d (jpg_name k)), w2) \<and>
            holds_numbered w2 d (Suc k)"
proof -
  from c obtain ds a px img where
    ds: "dcmread ev f = Inr ds" "has_pixel_data ds" "get_patient_folder f 2 = Inr g"
      "pixel_array ds = Inr a" "rescale (fl ev) (cast_nonfinite ev) a = Inr px" "fromarray ev px = Inr img"
    by (auto simp: converts_to_def split: sum.splits)
  from save_next[OF h, of img] obtain w2 where
    s: "save w1 (child d (jpg_name k)) img = (None, w2)" and h2: "holds_numbered w2 d (Suc k)"
    by blast
  have j: "joinpath d (format_02d k @ ''.jpg'') = child d (jpg_name k)"
    by (simp add: joinpath_def jpg_name_def)
  have "try_block ev f out w = (Inr (saved_message (child d (jpg_name k))), w2)"
    using ds m s j length_glob[OF h] d
    by (simp add: try_block_def Let_def)
  then show ?thesis using h2 by (simp add: convert_dicom_to_jpeg_def)
qed

lemma upt_first: "[k..<Suc (k + n)] = k # [Suc k..<Suc (k + n)]"
  by (simp add: upt_conv_Cons del: upt_Suc)

lemma run_numbered:
  assumes "holds_numbered w d k" and "\<forall>f \<in> set files. converts_to ev f g" and "d = joinpath out g"
  shows "\<exists>w'. executor_map ev out files w =
            (map (\<lambda>i. saved_message (child d (jpg_name i))) [k..<k + length files], w') \<and>
          holds_numbered w' d (k + length files)"
  using assms
proof (induction files arbitrary: w k)
  case Nil
  then show ?case by simp
next
  case (Cons f fs)
  from convert_next[OF mkdir_existing[OF Cons.prems(1)] Cons.prems(1) _ Cons.prems(3), of ev f]
    Cons.prems(2)
  obtain w2 where c: "convert_dicom_to_jpeg ev f out w = (saved_message (child d (jpg_name k)), w2)"
    and h2: "holds_numbered w2 d (Suc k)" by auto
  from Cons.IH[OF h2 _ Cons.prems(3)] Cons.prems(2)
  obtain w' where r: "executor_map ev out fs w2 =
        (map (\<lambda>i. saved_message (child d (jpg_name i))) [Suc k..<Suc k + length fs], w')"
    and h': "holds_numbered w' d (Suc k + length fs)" by auto
  show ?case using c r h' by (simp add: upt_first del: upt_Suc)
qed

lemma serial_core:
  assumes "\<forall>f \<in> set files. converts_to ev f g"
    and "d = joinpath out g"
    and "node w d = Absent" and "\<forall>n. node w (child d n) = Absent"
    and "fst (mkdir w d) = None"
    and "files \<noteq> []"
  shows "\<exists>w'. executor_map ev out files w =
            (map (\<lambda>i. saved_message (child d (jpg_name i))) [0..<length files], w') \<and>
          holds_numbered w' d (length files)"
proof -
  from assms(6) obtain f fs where files: "files = f # fs" by (cases files) auto
  obtain w1 where m: "mkdir w d = (None, w1)" using assms(5) by (cases "mkdir w d") auto
  have h0: "holds_numbered w1 d 0" by (rule mkdir_creates [OF m assms(3,4)])
  from convert_next [OF m h0 _ assms(2), of ev f] assms(1) files
  obtain w2 where c: "convert_dicom_to_jpeg ev f out w = (saved_message (child d (jpg_name 0)), w2)"
    and h2: "holds_numbered w2 d (Suc 0)" by auto
  from run_numbered [OF h2 _ assms(2), of fs ev] assms(1) files
  obtain w' where r: "executor_map ev out fs w2 =
        (map (\<lambda>i. saved_message (child d (jpg_name i))) [Suc 0..<Suc 0 + length fs], w')"
    and h': "holds_numbered w' d (Suc 0 + length fs)" by auto
  have "executor_map ev out files w =
      (map (\<lambda>i. saved_message (child d (jpg_name i))) [0..<length files], w')"
    using c r files upt_first [of 0 "length fs"] by (simp del: upt_Suc)
  with h' files show ?thesis by simp
qed

text \<open>
  C4. Files that all convert and all belong to one patient folder are converted one after
  the other, the folder being absent at the start (and nothing lying under it) and its
  creation succeeding. Then the files written are \<^verbatim>\<open>00.jpg\<close>, \<^verbatim>\<open>01.jpg\<close>, ... in this
  order, one for each input file; at the end the folder holds exactly these names, which
  are pairwise different; and after the first \<open>i\<close> conversions the folder holds \<open>i\<close>
  images, so that the number given to the next file is the count at its time.
\<close>

theorem serial_numbering:
  assumes "\<forall>f \<in> set files. converts_to ev f g"
    and "d = joinpath out g"
    and "node w d = Absent" and "\<forall>n. node w (child d n) = Absent"
    and "fst (mkdir w d) = None"
    and "files \<noteq> []"
  shows "fst (executor_map ev out files w) =
           map (\<lambda>i. saved_message (child d (format_02d i @ ''.jpg''))) [0..<length files] \<and>
         listing (snd (executor_map ev out files w)) d =
           map (\<lambda>i. format_02d i @ ''.jpg'') [0..<length files] \<and>
         distinct (map (\<lambda>i. format_02d i @ ''.jpg'') [0..<length files]) \<and>
         (\<forall>i. 0 < i \<and> i \<le> length files \<longrightarrow>
            length (glob_jpg (snd (executor_map ev out (take i files) w)) d) = i)"
proof -
  have jn: "jpg_name = (\<lambda>i. format_02d i @ ''.jpg'')" by (rule ext) (simp add: jpg_name_def)
  from serial_core [OF assms] obtain w' where
    e: "executor_map ev out files w =
      (map (\<lambda>i. saved_message (child d (jpg_name i))) [0..<length files], w')"
    and h': "holds_numbered w' d (length files)" by blast
  have "inj_on jpg_name {0..<length files}"
    by (rule inj_onI) (erule jpg_name_inj)
  then have di: "distinct (map jpg_name [0..<length files])"
    by (simp add: distinct_map)
  have cnt: "length (glob_jpg (snd (executor_map ev out (take i files) w)) d) = i"
    if i: "0 < i \<and> i \<le> length files" for i
  proof -
    have ne: "take i files \<noteq> []" using i assms(6) by auto
    have all: "\<forall>f \<in> set (take i files). converts_to ev f g"
      using assms(1) by (auto dest: in_set_takeD)
    from serial_core [OF all assms(2,3,4,5) ne] obtain v where
      "executor_map ev out (take i files) w =
        (map (\<lambda>i. saved_message (child d (jpg_name i))) [0..<length (take i files)], v)"
      and "holds_numbered v d (length (take i files))" by blast
    then show ?thesis using i length_glob [of v d "length (take i files)"] by simp
  qed
  show ?thesis using e h' di cnt by (simp add: holds_numbered_def jn)
qed

theorem serial_numbering_witness:
  "fst (executor_map good_env example_output [example_file, example_file2] empty_fs) =
     [check_mark @ '' Saved: /out/patientA/00.jpg'', check_mark @ '' Saved: /out/patientA/01.jpg'']"
proof -
  let ?d = "\<lparr>anchored = True, parts = [''out'', ''patientA'']\<rparr>"
  have g1: "get_patient_folder example_file 2 = Inr ''patientA''"
    by (simp add: get_patient_folder_def example_file_def Let_def parents_def name_def)
  have g2: "get_patient_folder example_file2 2 = Inr ''patientA''"
    by (simp add: get_patient_folder_def example_file2_def Let_def parents_def name_def)
  have c: "\<forall>f \<in> set [example_file, example_file2]. converts_to good_env f ''patientA''"
    by (simp add: converts_to_def good_env_def g1 g2 rescale_def)
  have d: "?d = joinpath example_output ''patientA''"
    by (simp add: joinpath_def child_def example_output_def)
  have a1: "node empty_fs ?d = Absent" by (simp add: empty_fs_def)
  have a2: "\<forall>n. node empty_fs (child ?d n) = Absent" by (simp add: empty_fs_def child_def)
  have o: "os_mkdir empty_fs \<lparr>anchored = True, parts = [''out'']\<rparr> = Inr
      (empty_fs\<lparr>node := (node empty_fs)(\<lparr>anchored = True, parts = [''out'']\<rparr> := Dir),
         listing := (listing empty_fs)(\<lparr>anchored = True, parts = []\<rparr> := [''out''],
                                       \<lparr>anchored = True, parts = [''out'']\<rparr> := [])\<rparr>)"
    by (simp add: os_mkdir_def empty_fs_def parent_def name_def)
  have m: "fst (mkdir empty_fs ?d) = None"
    by (simp add: mkdir.simps [of _ ?d] mkdir.simps [of _ "\<lparr>anchored = True, parts = [''out'']\<rparr>"]
        o os_mkdir_def mkdir_exist_ok_def parent_def name_def empty_fs_def is_dir_def)
  show ?thesis
    using serial_numbering [OF c d a1 a2 m]
    by (simp add: saved_message_def path_str_def child_def format_02d_def
        str_nat.simps [of 0] str_nat.simps [of "Suc 0"] digit_def upt_rec [of 0] upt_rec [of 1])
qed

end
